theory Spec2Isabelle
  imports Complex_Main
begin

section \<open>Text primitives of the Python runtime\<close>

text \<open>
  The relevance pipeline works on Python \<open>str\<close> values. A text is modelled as a
  \<^typ>\<open>string\<close> whose characters are the code points 0..255 (the Latin-1 range of
  Unicode), one \<^typ>\<open>char\<close> per code point, so \<^const>\<open>length\<close> is Python's \<open>len\<close>.
  The character classes below are those of CPython on that range.

  Python floats are modelled in exact rational arithmetic (\<^typ>\<open>rat\<close>): the scores
  are quotients of small integers, and every example evaluated below is exact in binary
  floating point as well. Where a quotient is not exact in binary floating point, the
  float result of \<open>round(x, 3)\<close> can differ from the rational one in the last digit (for
  a total of 9 over 1152 characters the float is 7.813, the rational 7.812), so a score
  of the model stands for the code's score only up to that digit. The statements on the
  ranking below hold for any score function, and the statements on score values are made
  where the float computation is exact or where both sides are the same computation.
\<close>

definition isspace :: "char \<Rightarrow> bool" where
  \<comment> \<open>\<open>str.isspace\<close>, the set \<open>str.strip()\<close> removes and the regex class \<open>\s\<close>.\<close>
  "isspace c =
     (let n = (of_char c :: nat)
      in (9 \<le> n \<and> n \<le> 13) \<or> (28 \<le> n \<and> n \<le> 32) \<or> n = 133 \<or> n = 160)"

definition lower_char :: "char \<Rightarrow> char" where
  "lower_char c =
     (let n = (of_char c :: nat)
      in if (65 \<le> n \<and> n \<le> 90) \<or> (192 \<le> n \<and> n \<le> 222 \<and> n \<noteq> 215)
         then char_of (n + 32) else c)"

definition lower :: "string \<Rightarrow> string" where
  \<comment> \<open>\<open>str.lower()\<close>\<close>
  "lower s = map lower_char s"

definition strip :: "string \<Rightarrow> string" where
  \<comment> \<open>\<open>str.strip()\<close>\<close>
  "strip s = rev (dropWhile isspace (rev (dropWhile isspace s)))"

fun startswith :: "string \<Rightarrow> string \<Rightarrow> bool" where
  \<comment> \<open>\<open>s.startswith(sub)\<close>\<close>
  "startswith s [] = True"
| "startswith [] (y # ys) = False"
| "startswith (x # xs) (y # ys) = (x = y \<and> startswith xs ys)"

fun contains :: "string \<Rightarrow> string \<Rightarrow> bool" where
  \<comment> \<open>\<open>sub in s\<close>\<close>
  "contains [] sub = (sub = [])"
| "contains (c # cs) sub = (startswith (c # cs) sub \<or> contains cs sub)"

fun count_from :: "string \<Rightarrow> string \<Rightarrow> nat" where
  \<comment> \<open>non-overlapping occurrences of a non-empty \<open>sub\<close>, scanning left to right:
      after a match the scan resumes behind it\<close>
  "count_from sub [] = 0"
| "count_from sub (c # cs) =
     (if startswith (c # cs) sub
      then Suc (count_from sub (drop (length sub - 1) cs))
      else count_from sub cs)"

definition str_count :: "string \<Rightarrow> string \<Rightarrow> nat" where
  \<comment> \<open>\<open>s.count(sub)\<close>; the empty string occurs \<open>len(s) + 1\<close> times\<close>
  "str_count s sub = (if sub = [] then length s + 1 else count_from sub s)"

definition round_half_even :: "rat \<Rightarrow> int" where
  "round_half_even x =
     (let f = \<lfloor>x\<rfloor>; d = x - of_int f
      in if d < 1 / 2 then f
         else if 1 / 2 < d then f + 1
         else if even f then f else f + 1)"

definition round_ndigits3 :: "rat \<Rightarrow> rat" where
  \<comment> \<open>\<open>round(x, 3)\<close>\<close>
  "round_ndigits3 x = of_int (round_half_even (x * 1000)) / 1000"

definition isdigit_re :: "char \<Rightarrow> bool" where
  \<comment> \<open>the regex class \<open>\d\<close>\<close>
  "isdigit_re c = (let n = (of_char c :: nat) in 48 \<le> n \<and> n \<le> 57)"

definition is_AZ :: "char \<Rightarrow> bool" where
  \<comment> \<open>the regex class \<open>[A-Z]\<close>\<close>
  "is_AZ c = (let n = (of_char c :: nat) in 65 \<le> n \<and> n \<le> 90)"

definition is_az :: "char \<Rightarrow> bool" where
  \<comment> \<open>the regex class \<open>[a-z]\<close>\<close>
  "is_az c = (let n = (of_char c :: nat) in 97 \<le> n \<and> n \<le> 122)"

definition is_terminator :: "char \<Rightarrow> bool" where
  \<comment> \<open>the regex class \<open>[.!?]\<close>\<close>
  "is_terminator c = (c = CHR ''.'' \<or> c = CHR ''!'' \<or> c = CHR ''?'')"

definition isupper_char :: "char \<Rightarrow> bool" where
  "isupper_char c =
     (let n = (of_char c :: nat)
      in (65 \<le> n \<and> n \<le> 90) \<or> (192 \<le> n \<and> n \<le> 222 \<and> n \<noteq> 215))"

definition islower_char :: "char \<Rightarrow> bool" where
  "islower_char c =
     (let n = (of_char c :: nat)
      in (97 \<le> n \<and> n \<le> 122) \<or> n = 170 \<or> n = 181 \<or> n = 186 \<or>
         (223 \<le> n \<and> n \<le> 255 \<and> n \<noteq> 247))"

definition str_isupper :: "string \<Rightarrow> bool" where
  \<comment> \<open>\<open>str.isupper()\<close>: some cased character, and no lower-case one\<close>
  "str_isupper s = (list_ex isupper_char s \<and> \<not> list_ex islower_char s)"

fun istitle_loop :: "bool \<Rightarrow> bool \<Rightarrow> string \<Rightarrow> bool" where
  "istitle_loop previous_is_cased cased [] = cased"
| "istitle_loop previous_is_cased cased (c # cs) =
     (if isupper_char c
      then (if previous_is_cased then False else istitle_loop True True cs)
      else if islower_char c
      then (if \<not> previous_is_cased then False else istitle_loop True True cs)
      else istitle_loop False cased cs)"

definition str_istitle :: "string \<Rightarrow> bool" where
  \<comment> \<open>\<open>str.istitle()\<close>\<close>
  "str_istitle s = istitle_loop False False s"

primrec split_char :: "char \<Rightarrow> string \<Rightarrow> string list" where
  \<comment> \<open>\<open>s.split(sep)\<close> for a one-character separator\<close>
  "split_char sep [] = [[]]"
| "split_char sep (c # cs) =
     (if c = sep then [] # split_char sep cs
      else (case split_char sep cs of [] \<Rightarrow> [[c]] | p # ps \<Rightarrow> (c # p) # ps))"

primrec join :: "string \<Rightarrow> string list \<Rightarrow> string" where
  \<comment> \<open>\<open>sep.join(xs)\<close>\<close>
  "join sep [] = []"
| "join sep (x # xs) = (if xs = [] then x else x @ sep @ join sep xs)"

subsection \<open>The regular expressions of the segmenter\<close>

text \<open>
  Each pattern is written out as the scan CPython's backtracking matcher performs. In all
  of them the adjacent character classes are disjoint, so the greedy repetition is the
  only candidate and the leftmost match is the one computed here.
\<close>

definition blank_separator :: "string \<Rightarrow> nat" where
  \<comment> \<open>behind a newline: the length of \<open>\s*\n\<close>, that is the white-space run up to its
      last newline\<close>
  "blank_separator cs =
     (let run = takeWhile isspace cs
      in length run - length (takeWhile (\<lambda>c. c \<noteq> CHR 0x0A) (rev run)))"

fun split_blank_lines :: "string \<Rightarrow> string \<Rightarrow> string list" where
  \<comment> \<open>\<open>re.split(r'\n\s*\n', text)\<close>; \<open>cur\<close> holds the current piece, reversed\<close>
  "split_blank_lines cur [] = [rev cur]"
| "split_blank_lines cur (c # cs) =
     (if c = CHR 0x0A \<and> CHR 0x0A \<in> set (takeWhile isspace cs)
      then rev cur # split_blank_lines [] (drop (blank_separator cs) cs)
      else split_blank_lines (c # cur) cs)"

function split_terminators :: "string \<Rightarrow> string \<Rightarrow> string list" where
  \<comment> \<open>\<open>re.split(r'[.!?]+\s+', text)\<close>; \<open>cur\<close> holds the current piece, reversed\<close>
  "split_terminators cur [] = [rev cur]"
| "split_terminators cur (c # cs) =
     (if is_terminator c \<and> dropWhile is_terminator cs \<noteq> [] \<and>
         isspace (hd (dropWhile is_terminator cs))
      then rev cur # split_terminators [] (dropWhile isspace (dropWhile is_terminator cs))
      else split_terminators (c # cur) cs)"
  by pat_completeness auto
termination
proof (relation "measure (\<lambda>(cur, s). length s)")
  fix cur :: string and c :: char and cs :: string
  have "length (dropWhile isspace (dropWhile is_terminator cs)) \<le> length cs"
    by (meson length_dropWhile_le order_trans)
  then show "(([], dropWhile isspace (dropWhile is_terminator cs)), cur, c # cs)
             \<in> measure (\<lambda>(cur, s). length s)"
    by simp
qed auto

definition numbered_heading :: "string \<Rightarrow> bool" where
  \<comment> \<open>\<open>re.match(r'^\d+\.?\s+[A-Z]', s)\<close>\<close>
  "numbered_heading s =
     (let r1 = dropWhile isdigit_re s;
          r2 = (case r1 of [] \<Rightarrow> r1 | c # cs \<Rightarrow> if c = CHR ''.'' then cs else r1);
          r3 = dropWhile isspace r2
      in takeWhile isdigit_re s \<noteq> [] \<and> takeWhile isspace r2 \<noteq> [] \<and>
         r3 \<noteq> [] \<and> is_AZ (hd r3))"

definition upper_case_line :: "string \<Rightarrow> bool" where
  \<comment> \<open>\<open>re.match(r'^[A-Z][A-Z\s]{2,}$', s)\<close>; \<open>$\<close> may also stand before a final
      newline, which the class \<open>[A-Z\s]\<close> absorbs\<close>
  "upper_case_line s =
     (case s of [] \<Rightarrow> False
      | c # cs \<Rightarrow> is_AZ c \<and> 2 \<le> length cs \<and> list_all (\<lambda>x. is_AZ x \<or> isspace x) cs)"

function title_case_words :: "string \<Rightarrow> bool" where
  \<comment> \<open>\<open>[A-Z][a-z]+(\s[A-Z][a-z]+)*$\<close> at the start of \<open>s\<close>; \<open>$\<close> holds at the end and
      before a final newline\<close>
  "title_case_words [] = False"
| "title_case_words (c # cs) =
     (is_AZ c \<and> takeWhile is_az cs \<noteq> [] \<and>
      (case dropWhile is_az cs of
         [] \<Rightarrow> True
       | w # r \<Rightarrow> (w = CHR 0x0A \<and> r = []) \<or> (isspace w \<and> title_case_words r)))"
  by pat_completeness auto
termination
proof (relation "measure length")
  fix c :: char and cs :: string and w :: char and r :: string
  assume "dropWhile is_az cs = w # r"
  then have "length (w # r) \<le> length cs"
    by (metis length_dropWhile_le)
  then show "(r, c # cs) \<in> measure length"
    by simp
qed auto

definition subnumbered_heading :: "string \<Rightarrow> bool" where
  \<comment> \<open>\<open>re.match(r'^\d+\.\d+\.?\s+[A-Z]', s)\<close>\<close>
  "subnumbered_heading s =
     (case dropWhile isdigit_re s of
        [] \<Rightarrow> False
      | c # cs \<Rightarrow> takeWhile isdigit_re s \<noteq> [] \<and> c = CHR ''.'' \<and>
          (let r1 = dropWhile isdigit_re cs;
               r2 = (case r1 of [] \<Rightarrow> r1 | d # ds \<Rightarrow> if d = CHR ''.'' then ds else r1);
               r3 = dropWhile isspace r2
           in takeWhile isdigit_re cs \<noteq> [] \<and> takeWhile isspace r2 \<noteq> [] \<and>
              r3 \<noteq> [] \<and> is_AZ (hd r3)))"

section \<open>Section segmentation (section\_ranker.py)\<close>

definition is_section_header :: "string \<Rightarrow> bool" where
  "is_section_header text =
     (if length text > 200 then False
      else (let t = strip text
            in numbered_heading t \<or> upper_case_line t \<or> title_case_words t \<or>
               subnumbered_heading t))"

primrec length_loop :: "nat \<Rightarrow> string list \<Rightarrow> string list \<times> string \<Rightarrow> string list \<times> string" where
  \<comment> \<open>the loop of \<open>_split_by_length\<close> over the state \<open>(sections, current_section)\<close>\<close>
  "length_loop target_length [] st = st"
| "length_loop target_length (sentence # rest) st =
     (case st of (sections, current_section) \<Rightarrow>
        if length current_section + length sentence > target_length \<and> current_section \<noteq> []
        then length_loop target_length rest (sections @ [strip current_section], sentence @ ''. '')
        else length_loop target_length rest (sections, current_section @ sentence @ ''. ''))"

definition split_by_length :: "string \<Rightarrow> nat \<Rightarrow> string list" where
  "split_by_length text target_length =
     (case length_loop target_length (split_terminators [] text) ([], []) of
        (sections, current_section) \<Rightarrow>
          if current_section \<noteq> [] then sections @ [strip current_section] else sections)"

primrec paragraph_loop :: "string list \<Rightarrow> string list \<times> string \<Rightarrow> string list \<times> string" where
  \<comment> \<open>the loop of \<open>_split_into_sections\<close> over the state \<open>(sections, current_section)\<close>\<close>
  "paragraph_loop [] st = st"
| "paragraph_loop (p # rest) st =
     (case st of (sections, current_section) \<Rightarrow>
        let paragraph = strip p
        in if paragraph = [] then paragraph_loop rest st
           else if is_section_header paragraph
           then paragraph_loop rest
                  (if current_section \<noteq> [] then sections @ [strip current_section] else sections,
                   paragraph @ [CHR 0x0A, CHR 0x0A])
           else paragraph_loop rest
                  (sections, current_section @ paragraph @ [CHR 0x0A, CHR 0x0A]))"

definition max_sections_per_page :: nat where
  "max_sections_per_page = 5"

definition min_section_length :: nat where
  "min_section_length = 100"

definition split_into_sections :: "string \<Rightarrow> string list" where
  "split_into_sections page_text =
     (if page_text = [] then []
      else (case paragraph_loop (split_blank_lines [] page_text) ([], []) of
              (sections0, current_section) \<Rightarrow>
                let sections1 = (if current_section \<noteq> []
                                 then sections0 @ [strip current_section] else sections0);
                    sections2 = (if length sections1 \<le> 1 \<and> length page_text > 1000
                                 then split_by_length page_text 800 else sections1)
                in take max_sections_per_page sections2))"

fun title_line :: "nat \<Rightarrow> string list \<Rightarrow> string option" where
  \<comment> \<open>the loop \<open>for line in lines[:3]\<close> of \<open>_extract_section_title\<close>; \<open>None\<close> when
      it falls through\<close>
  "title_line max_length [] = None"
| "title_line max_length (l # ls) =
     (let line = strip l
      in if line \<noteq> [] \<and> length line < max_length \<and>
            (str_isupper line \<or> str_istitle line \<or> numbered_heading line)
         then Some line else title_line max_length ls)"

definition extract_section_title :: "string \<Rightarrow> nat \<Rightarrow> string" where
  "extract_section_title section_text max_length =
     (case title_line max_length (take 3 (split_char (CHR 0x0A) section_text)) of
        Some line \<Rightarrow> line
      | None \<Rightarrow>
          (let first_sentence = strip (takeWhile (\<lambda>c. \<not> is_terminator c) section_text)
           in if length first_sentence > max_length
              then take max_length first_sentence @ ''...'' else first_sentence))"

section \<open>Relevance scoring (section\_ranker.py)\<close>

primrec score_keywords :: "string \<Rightarrow> (string \<rightharpoonup> int) \<Rightarrow> string list \<Rightarrow> rat \<Rightarrow> rat" where
  \<comment> \<open>the loop \<open>for keyword in keywords\<close> of \<open>_calculate_relevance_score\<close>,
      threading the running \<open>score\<close>\<close>
  "score_keywords text_lower keyword_weights [] score = score"
| "score_keywords text_lower keyword_weights (keyword # rest) score =
     (let count = str_count text_lower (lower keyword)
      in if count > 0
         then (let weight = (case keyword_weights keyword of None \<Rightarrow> 1 | Some w \<Rightarrow> w)
               in score_keywords text_lower keyword_weights rest
                    (score + of_int (int count * weight * int (length keyword))))
         else score_keywords text_lower keyword_weights rest score)"

definition calculate_relevance_score ::
    "string \<Rightarrow> string list \<Rightarrow> (string \<rightharpoonup> int) \<Rightarrow> rat" where
  "calculate_relevance_score section_text keywords keyword_weights =
     (if section_text = [] \<or> keywords = [] then 0
      else (let text_lower = lower section_text;
                score = score_keywords text_lower keyword_weights keywords 0;
                normalized_score = score / (of_nat (length section_text) / 1000)
            in round_ndigits3 normalized_score))"

section \<open>Ranking (section\_ranker.py)\<close>

record section_data =
  document :: string
  page_number :: nat
  section_index :: nat
  section_title :: string
  section_text :: string
  relevance_score :: rat
  importance_rank :: nat

record keyword_dict =
  persona_keywords :: "string list"
  job_keywords :: "string list"
  combined_keywords :: "string list"
  keyword_weights :: "string \<rightharpoonup> int"

definition page_sections :: "keyword_dict \<Rightarrow> string \<Rightarrow> nat \<times> string \<Rightarrow> section_data list" where
  \<comment> \<open>the body of \<open>for page_num, page_text in enumerate(pages, 1)\<close>: the sections of one
      page, those shorter than \<open>min_section_length\<close> skipped\<close>
  "page_sections kw filename = (\<lambda>(page_num, page_text).
     map (\<lambda>(section_idx, text).
            \<lparr> document = filename, page_number = page_num, section_index = section_idx,
              section_title = extract_section_title text 100, section_text = text,
              relevance_score =
                calculate_relevance_score text (combined_keywords kw) (keyword_weights kw),
              importance_rank = 0 \<rparr>)
         (filter (\<lambda>(section_idx, text). \<not> length text < min_section_length)
                 (enumerate 0 (split_into_sections page_text))))"

definition collect_sections :: "(string \<times> string list) list \<Rightarrow> keyword_dict \<Rightarrow> section_data list" where
  \<comment> \<open>\<open>all_sections\<close> before sorting; the dictionary \<open>extracted_texts\<close> is the list of
      its items in insertion order\<close>
  "collect_sections extracted_texts kw =
     concat (map (\<lambda>(filename, pages).
                    concat (map (page_sections kw filename) (enumerate 1 pages)))
                 extracted_texts)"

definition sort_descending :: "('a \<Rightarrow> 'k::linorder) \<Rightarrow> 'a list \<Rightarrow> 'a list" where
  \<comment> \<open>\<open>xs.sort(key=f, reverse=True)\<close> and \<open>sorted(xs, key=f, reverse=True)\<close>: CPython
      reverses the list, sorts it stably in ascending order and reverses it again, so that
      equal keys keep their order\<close>
  "sort_descending f xs = rev (sort_key f (rev xs))"

primrec assign_ranks :: "nat \<Rightarrow> section_data list \<Rightarrow> section_data list" where
  \<comment> \<open>\<open>for rank, section in enumerate(all_sections, 1)\<close>\<close>
  "assign_ranks rank [] = []"
| "assign_ranks rank (s # ss) = s\<lparr>importance_rank := rank\<rparr> # assign_ranks (Suc rank) ss"

definition rank_sections :: "(string \<times> string list) list \<Rightarrow> keyword_dict \<Rightarrow> section_data list" where
  "rank_sections extracted_texts kw =
     assign_ranks 1 (sort_descending relevance_score (collect_sections extracted_texts kw))"

section \<open>Extractive summaries (subsection\_analyzer.py)\<close>

definition summary_sentences :: nat where
  "summary_sentences = 3"

definition split_sentences :: "string \<Rightarrow> string list" where
  "split_sentences text =
     filter (\<lambda>sentence. length sentence > 20) (map strip (split_terminators [] text))"

primrec presence_loop :: "string \<Rightarrow> string list \<Rightarrow> rat \<Rightarrow> rat" where
  \<comment> \<open>the loop \<open>for keyword in keywords\<close> of \<open>_score_sentence\<close>\<close>
  "presence_loop sentence_lower [] score = score"
| "presence_loop sentence_lower (keyword # rest) score =
     (if contains sentence_lower (lower keyword)
      then presence_loop sentence_lower rest (score + of_nat (length keyword))
      else presence_loop sentence_lower rest score)"

definition score_sentence :: "string \<Rightarrow> string list \<Rightarrow> rat" where
  "score_sentence sentence kws =
     (if sentence = [] \<or> kws = [] then 0
      else (let sentence_lower = lower sentence;
                score = presence_loop sentence_lower kws 0;
                keyword_count =
                  length (filter (\<lambda>keyword. contains sentence_lower (lower keyword)) kws);
                score = (if keyword_count > 1
                         then score * (1 + of_nat keyword_count * (2 / 10)) else score);
                normalized_score = score / (of_nat (length sentence) / 100)
            in normalized_score))"

definition generate_extractive_summary :: "string \<Rightarrow> string list \<Rightarrow> string" where
  "generate_extractive_summary text kws =
     (if text = [] then []
      else (let sentences = split_sentences text
            in if length sentences \<le> summary_sentences then text
               else (let sentence_scores = map (\<lambda>s. (s, score_sentence s kws)) sentences;
                         top_sentences = take summary_sentences (sort_descending snd sentence_scores);
                         selected_sentences = map fst top_sentences;
                         original_order_sentences =
                           filter (\<lambda>s. s \<in> set selected_sentences) sentences
                     in join '' '' original_order_sentences)))"

section \<open>Keyword extraction (keyword\_analyzer.py)\<close>

text \<open>
  The NLTK tokenizer, tagger and stop-word corpus are outside the repository, and the
  iteration order of a Python \<open>set\<close> of strings is fixed by the interpreter's hash seed.
  They are the fields of an environment; \<open>None\<close> stands for a call that raises.
\<close>

record environment =
  word_tokenize :: "string \<Rightarrow> string list option"
  pos_tag :: "string list \<Rightarrow> (string \<times> string) list option"
  stopwords_english :: "string list option"
  set_order :: "string list \<Rightarrow> string list"  \<comment> \<open>\<open>list(set(xs))\<close>\<close>

definition set_order_ok :: "(string list \<Rightarrow> string list) \<Rightarrow> bool" where
  \<comment> \<open>what Python guarantees of \<open>list(set(xs))\<close>: the elements of \<open>xs\<close>, each once\<close>
  "set_order_ok f = (\<forall>xs. distinct (f xs) \<and> set (f xs) = set xs)"

definition isalnum_char :: "char \<Rightarrow> bool" where
  "isalnum_char c =
     (let n = (of_char c :: nat)
      in (48 \<le> n \<and> n \<le> 57) \<or> (65 \<le> n \<and> n \<le> 90) \<or> (97 \<le> n \<and> n \<le> 122) \<or>
         n = 170 \<or> n = 178 \<or> n = 179 \<or> n = 181 \<or> n = 185 \<or> n = 186 \<or>
         (188 \<le> n \<and> n \<le> 190) \<or> (192 \<le> n \<and> n \<le> 214) \<or>
         (216 \<le> n \<and> n \<le> 246) \<or> (248 \<le> n \<and> n \<le> 255))"

definition str_isalnum :: "string \<Rightarrow> bool" where
  \<comment> \<open>\<open>str.isalnum()\<close>\<close>
  "str_isalnum s = (s \<noteq> [] \<and> list_all isalnum_char s)"

definition is_word :: "char \<Rightarrow> bool" where
  \<comment> \<open>the regex class \<open>\w\<close>\<close>
  "is_word c = (isalnum_char c \<or> c = CHR ''_'')"

definition is_letter :: "char \<Rightarrow> bool" where
  \<comment> \<open>the classes \<open>[A-Z]\<close> and \<open>[a-z]\<close> under \<open>re.IGNORECASE\<close>\<close>
  "is_letter c = (is_AZ c \<or> is_az c)"

definition boundary_before :: "char option \<Rightarrow> bool" where
  \<comment> \<open>\<open>\b\<close> in front of a word character, \<open>prev\<close> the character before it\<close>
  "boundary_before prev = (case prev of None \<Rightarrow> True | Some p \<Rightarrow> \<not> is_word p)"

definition boundary_after :: "string \<Rightarrow> bool" where
  \<comment> \<open>\<open>\b\<close> behind a word character, \<open>rest\<close> the text that follows it\<close>
  "boundary_after rest = (case rest of [] \<Rightarrow> True | c # cs \<Rightarrow> \<not> is_word c)"

type_synonym matcher = "char option \<Rightarrow> string \<Rightarrow> nat option"

fun findall :: "matcher \<Rightarrow> char option \<Rightarrow> string \<Rightarrow> string list" where
  \<comment> \<open>\<open>re.findall\<close> for a pattern without groups that matches no empty string: the
      matcher gives the length of the match at a position, the scan resumes behind it\<close>
  "findall m prev [] = []"
| "findall m prev (c # cs) =
     (case m prev (c # cs) of
        None \<Rightarrow> findall m (Some c) cs
      | Some n \<Rightarrow> take n (c # cs) # findall m (Some ((c # cs) ! (n - 1))) (drop (n - 1) cs))"

definition word_matcher :: matcher where
  \<comment> \<open>\<open>\b\w+\b\<close>\<close>
  "word_matcher prev s =
     (let w = takeWhile is_word s
      in if boundary_before prev \<and> w \<noteq> [] then Some (length w) else None)"

definition title_pair_matcher :: matcher where
  \<comment> \<open>\<open>\b[A-Z][a-z]+ [A-Z][a-z]+\b\<close> under \<open>re.IGNORECASE\<close>\<close>
  "title_pair_matcher prev s =
     (let w1 = takeWhile is_letter s; r1 = dropWhile is_letter s
      in if boundary_before prev \<and> 2 \<le> length w1 \<and> r1 \<noteq> [] \<and> hd r1 = CHR '' ''
         then (let w2 = takeWhile is_letter (tl r1); r2 = dropWhile is_letter (tl r1)
               in if 2 \<le> length w2 \<and> boundary_after r2
                  then Some (length w1 + 1 + length w2) else None)
         else None)"

definition phrase_matcher :: "string \<Rightarrow> bool \<Rightarrow> matcher" where
  \<comment> \<open>\<open>\b\w+ WORD\b\<close> and, with \<open>plural\<close>, \<open>\b\w+ WORDs?\b\<close> under \<open>re.IGNORECASE\<close>,
      for a lower-case \<open>WORD\<close>\<close>
  "phrase_matcher word plural prev s =
     (let w = takeWhile is_word s; r = dropWhile is_word s;
          n = length w + 1 + length word; after = drop (1 + length word) r
      in if boundary_before prev \<and> w \<noteq> [] \<and> startswith (lower r) (CHR '' '' # word)
         then (if plural \<and> after \<noteq> [] \<and> lower_char (hd after) = CHR ''s'' \<and>
                  boundary_after (tl after)
               then Some (n + 1)
               else if boundary_after after then Some n else None)
         else None)"

definition extract_bigrams :: "environment \<Rightarrow> string \<Rightarrow> string list" where
  "extract_bigrams env text =
     (let patterns = [title_pair_matcher, phrase_matcher ''learning'' False,
                      phrase_matcher ''analysis'' False, phrase_matcher ''discovery'' False,
                      phrase_matcher ''network'' True];
          bigrams = concat (map (\<lambda>pattern. map lower (findall pattern None text)) patterns)
      in set_order env bigrams)"

definition stop_words :: "environment \<Rightarrow> string list" where
  \<comment> \<open>\<open>self.stop_words\<close> as \<open>__init__\<close> builds it; only membership is used\<close>
  "stop_words env =
     (case stopwords_english env of
        Some ws \<Rightarrow> ws
      | None \<Rightarrow> [''the'', ''a'', ''an'', ''and'', ''or'', ''but'', ''in'', ''on'', ''at'',
                 ''to'', ''for'', ''of'', ''with'', ''by''])
     @ [''using'', ''used'', ''use'', ''make'', ''get'', ''go'', ''come'', ''take'',
        ''give'', ''want'', ''need'', ''like'', ''know'', ''think'', ''see'', ''look'']"

definition extract_from_text :: "environment \<Rightarrow> string \<Rightarrow> string list" where
  "extract_from_text env text =
     (if text = [] then []
      else (let tokens = (case word_tokenize env (lower text) of
                            Some ts \<Rightarrow> ts
                          | None \<Rightarrow> findall word_matcher None (lower text));
                tokens = filter (\<lambda>token. str_isalnum token \<and> length token > 2) tokens;
                tokens = filter (\<lambda>token. token \<notin> set (stop_words env)) tokens;
                kws = (case pos_tag env tokens of
                         Some pos_tags \<Rightarrow>
                           map fst (filter (\<lambda>(word, pos). startswith pos ''NN'' \<or>
                                               startswith pos ''JJ'' \<or> startswith pos ''VB'')
                                           pos_tags)
                       | None \<Rightarrow> tokens);
                bigrams = extract_bigrams env text
            in set_order env (kws @ bigrams)))"

fun counter_add :: "string \<Rightarrow> (string \<times> int) list \<Rightarrow> (string \<times> int) list" where
  \<comment> \<open>\<open>c[k] = c.get(k, 0) + 1\<close> on the items of the dictionary, in insertion order\<close>
  "counter_add k [] = [(k, 1)]"
| "counter_add k ((k', n) # items) =
     (if k = k' then (k', n + 1) # items else (k', n) # counter_add k items)"

definition Counter :: "string list \<Rightarrow> (string \<times> int) list" where
  \<comment> \<open>\<open>collections.Counter(xs)\<close>\<close>
  "Counter xs = fold counter_add xs []"

definition most_common :: "nat \<Rightarrow> (string \<times> int) list \<Rightarrow> (string \<times> int) list" where
  \<comment> \<open>\<open>Counter.most_common(n)\<close>, which is \<open>sorted(items, key=count, reverse=True)[:n]\<close>\<close>
  "most_common n items = take n (sort_descending snd items)"

definition extract_keywords :: "environment \<Rightarrow> string \<Rightarrow> string \<Rightarrow> keyword_dict" where
  "extract_keywords env persona job_to_be_done =
     (let persona_kws = extract_from_text env persona;
          job_kws = extract_from_text env job_to_be_done;
          all_keywords = persona_kws @ job_kws;
          weights = Counter all_keywords;
          top_keywords = map fst (most_common 20 weights)
      in \<lparr> persona_keywords = persona_kws, job_keywords = job_kws,
           combined_keywords = top_keywords, keyword_weights = map_of weights \<rparr>)"

section \<open>Discovery order\<close>

text \<open>
  The order in which rank\_sections meets the sections: by the position of the document
  among the keys of the input mapping, then by page number, then by section index.
\<close>

definition doc_position :: "(string \<times> string list) list \<Rightarrow> string \<Rightarrow> nat" where
  "doc_position docs name = length (takeWhile (\<lambda>d. fst d \<noteq> name) docs)"

definition discovered_before ::
    "(string \<times> string list) list \<Rightarrow> section_data \<Rightarrow> section_data \<Rightarrow> bool" where
  "discovered_before docs a b =
     (doc_position docs (document a) < doc_position docs (document b) \<or>
      (doc_position docs (document a) = doc_position docs (document b) \<and>
       (page_number a < page_number b \<or>
        (page_number a = page_number b \<and> section_index a < section_index b))))"

definition page_order :: "section_data \<Rightarrow> section_data \<Rightarrow> bool" where
  "page_order a b =
     (page_number a < page_number b \<or>
      (page_number a = page_number b \<and> section_index a < section_index b))"

section \<open>Positions in lists and texts\<close>

definition first_index :: "'a list \<Rightarrow> 'a \<Rightarrow> nat" where
  \<comment> \<open>the position of the first occurrence of \<open>x\<close> in \<open>xs\<close>\<close>
  "first_index xs x = length (takeWhile (\<lambda>y. y \<noteq> x) xs)"

fun str_find :: "string \<Rightarrow> string \<Rightarrow> nat option" where
  \<comment> \<open>\<open>s.find(sub)\<close>, \<open>None\<close> for -1\<close>
  "str_find [] sub = (if sub = [] then Some 0 else None)"
| "str_find (c # cs) sub =
     (if startswith (c # cs) sub then Some 0 else map_option Suc (str_find cs sub))"

section \<open>The sentence score of the specification\<close>

definition spec_sentence_score :: "string \<Rightarrow> string list \<Rightarrow> rat" where
  \<comment> \<open>the sentence score in the words of the specification of the summarizer: the lengths
      of the keywords present, with the bonus for more than one, and nothing else\<close>
  "spec_sentence_score sentence kws =
     (let matched = filter (\<lambda>keyword. contains (lower sentence) (lower keyword)) kws;
          total = of_nat (sum_list (map length matched))
      in if length matched > 1 then total * (1 + 2 / 10 * of_nat (length matched)) else total)"

section \<open>Example inputs\<close>

definition example_section :: string where
  \<comment> \<open>2000 characters, "drug discovery" twice and "neural" once\<close>
  "example_section = ''drug discovery neural drug discovery'' @ replicate 1964 CHR ''x''"

definition repeated_sentence_text :: string where
  \<comment> \<open>five sentences, the first and the fourth the same\<close>
  "repeated_sentence_text =
     ''Dogs bark loudly at night. The cat sat on a warm mat. Birds sing in the tall trees. '' @
     ''Dogs bark loudly at night. Fish swim in the cold pond.''"

definition blank_page :: string where
  \<comment> \<open>two blanks, two newlines, a tab and a blank\<close>
  "blank_page = [CHR '' '', CHR '' '', CHR 0x0A, CHR 0x0A, CHR 0x09, CHR '' '']"

definition example_docs :: "(string \<times> string list) list" where
  "example_docs =
     [(''a.pdf'', [''This page talks about gardening and cooking at length, with many words but none of the search terms at all.'']),
      (''b.pdf'', [''A second page on gardening and cooking, again with many words and again with none of the search terms at all.'',
                  ''Neural methods are the topic of this page, which is long enough to pass the minimum length of one hundred characters.''])]"

definition example_keywords :: keyword_dict where
  "example_keywords =
     \<lparr> persona_keywords = [''neural''], job_keywords = [], combined_keywords = [''neural''],
       keyword_weights = [''neural'' \<mapsto> 1] \<rparr>"

definition reversing_env :: environment where
  \<comment> \<open>NLTK unavailable (every call raises), and a hash seed under which a set of strings
      is iterated against the order of insertion\<close>
  "reversing_env =
     \<lparr> word_tokenize = (\<lambda>text. None), pos_tag = (\<lambda>tokens. None), stopwords_english = None,
       set_order = (\<lambda>xs. rev (remdups xs)) \<rparr>"

section \<open>Properties of the relevance score\<close>

lemma startswith_append_replicate:
  "c \<notin> set sub \<Longrightarrow> startswith (xs @ replicate n c) sub = startswith xs sub"
proof (induction xs sub rule: startswith.induct)
  case (1 s)
  then show ?case by simp
next
  case (2 y ys)
  then show ?case by (cases n) auto
next
  case (3 x xs y ys)
  then show ?case by simp
qed

lemma startswith_length: "startswith s sub \<Longrightarrow> length sub \<le> length s"
  by (induction s sub rule: startswith.induct) auto

lemma count_from_replicate:
  "c \<notin> set sub \<Longrightarrow> sub \<noteq> [] \<Longrightarrow> count_from sub (replicate n c) = 0"
proof (induction n)
  case 0
  then show ?case by simp
next
  case (Suc n)
  have "\<not> startswith (c # replicate n c) sub"
    using Suc.prems by (cases sub) auto
  with Suc show ?case by simp
qed

lemma count_from_append_replicate:
  "c \<notin> set sub \<Longrightarrow> sub \<noteq> [] \<Longrightarrow> count_from sub (xs @ replicate n c) = count_from sub xs"
proof (induction sub xs rule: count_from.induct)
  case (1 sub)
  then show ?case by (simp add: count_from_replicate)
next
  case (2 sub x xs)
  have sw: "startswith ((x # xs) @ replicate n c) sub = startswith (x # xs) sub"
    using "2.prems"(1) by (rule startswith_append_replicate)
  show ?case
  proof (cases "startswith (x # xs) sub")
    case True
    then have "length sub - 1 \<le> length xs"
      using startswith_length by fastforce
    then have "drop (length sub - 1) (xs @ replicate n c) = drop (length sub - 1) xs @ replicate n c"
      by simp
    with True sw 2 show ?thesis by simp
  next
    case False
    with sw 2 show ?thesis by simp
  qed
qed

lemma str_count_append_replicate:
  "c \<notin> set sub \<Longrightarrow> sub \<noteq> [] \<Longrightarrow> str_count (xs @ replicate n c) sub = str_count xs sub"
  by (simp add: str_count_def count_from_append_replicate)

lemma lower_append_replicate: "lower (xs @ replicate n c) = lower xs @ replicate n (lower_char c)"
  by (simp add: lower_def)

lemma lower_drug_discovery: "lower ''drug discovery'' = ''drug discovery''"
  by code_simp

lemma lower_neural: "lower ''neural'' = ''neural''"
  by code_simp

lemma round_ndigits3_45: "round_ndigits3 45 = 45"
  by (simp add: round_ndigits3_def round_half_even_def)

text \<open>
  C3. A section text of 2000 characters whose lower-cased form has "drug discovery"
  twice and "neural" once, scored against the keywords "drug discovery" (weight 3) and
  "neural" (weight 1), has relevance (2*3*14 + 1*1*6) / 2 = 45: the total adds
  count * weight * keyword length per keyword, the divisor is the character count over
  1000, and rounding to three decimals leaves 45.
\<close>

theorem score_example_45:
  assumes len: "length stext = 2000"
      and dd: "str_count (lower stext) ''drug discovery'' = 2"
      and ne: "str_count (lower stext) ''neural'' = 1"
  shows "calculate_relevance_score stext [''drug discovery'', ''neural'']
           [''drug discovery'' \<mapsto> 3, ''neural'' \<mapsto> 1]
         = (2 * 3 * 14 + 1 * 1 * 6) / 2 \<and>
         calculate_relevance_score stext [''drug discovery'', ''neural'']
           [''drug discovery'' \<mapsto> 3, ''neural'' \<mapsto> 1] = 45"
proof -
  have ne0: "stext \<noteq> []" using len by auto
  have "score_keywords (lower stext) [''drug discovery'' \<mapsto> 3, ''neural'' \<mapsto> 1]
          [''drug discovery'', ''neural''] 0 = 90"
    using dd ne by (simp add: lower_drug_discovery lower_neural)
  then show ?thesis
    using ne0 len by (simp add: calculate_relevance_score_def round_ndigits3_45)
qed

theorem score_example_45_witness:
  "length example_section = 2000 \<and>
   str_count (lower example_section) ''drug discovery'' = 2 \<and>
   str_count (lower example_section) ''neural'' = 1 \<and>
   calculate_relevance_score example_section [''drug discovery'', ''neural'']
     [''drug discovery'' \<mapsto> 3, ''neural'' \<mapsto> 1] = 45"
proof -
  have len: "length example_section = 2000"
    by (simp add: example_section_def)
  have lc: "lower_char CHR ''x'' = CHR ''x''" by code_simp
  have low: "lower example_section =
      lower ''drug discovery neural drug discovery'' @ replicate 1964 CHR ''x''"
    unfolding example_section_def lower_append_replicate lc ..
  have dd: "str_count (lower example_section) ''drug discovery'' = 2"
    unfolding low by (subst str_count_append_replicate) (simp, simp, code_simp)
  have ne: "str_count (lower example_section) ''neural'' = 1"
    unfolding low by (subst str_count_append_replicate) (simp, simp, code_simp)
  from score_example_45 [OF len dd ne] len dd ne show ?thesis by simp
qed

lemma score_keywords_shift:
  "score_keywords t w kws (d + s) = d + score_keywords t w kws s"
  by (induction kws arbitrary: s) (simp_all add: Let_def add.assoc)

lemma score_keywords_append:
  "score_keywords t w (pre @ post) s = score_keywords t w post (score_keywords t w pre s)"
  by (induction pre arbitrary: s) (simp_all add: Let_def)

lemma score_keywords_explicit_one:
  "w k = None \<Longrightarrow> score_keywords t (w(k \<mapsto> 1)) kws s = score_keywords t w kws s"
  by (induction kws arbitrary: s) (simp_all add: Let_def)

text \<open>
  C10. A keyword of the ranked list without an entry in the weights mapping is scored
  with weight 1: wherever it stands in the list (pre and post are the keywords around it), it adds count * 1 * length(keyword) to
  the running total, and the score is the one an explicit entry of weight 1 would give.
\<close>

theorem missing_weight_defaults_to_one:
  assumes "weights keyword = None"
  shows "score_keywords text_lower weights (pre @ keyword # post) score =
           score_keywords text_lower weights (pre @ post) score
           + of_nat (str_count text_lower (lower keyword) * 1 * length keyword)
         \<and> calculate_relevance_score stext kws weights =
           calculate_relevance_score stext kws (weights(keyword \<mapsto> 1))"
proof
  let ?mid = "score_keywords text_lower weights pre score"
  define c :: rat where "c = of_nat (str_count text_lower (lower keyword) * 1 * length keyword)"
  have "score_keywords text_lower weights (keyword # post) ?mid =
          score_keywords text_lower weights post (c + ?mid)"
    using assms by (cases "str_count text_lower (lower keyword) = 0")
      (simp_all add: Let_def c_def add.commute)
  also have "\<dots> = c + score_keywords text_lower weights post ?mid"
    by (rule score_keywords_shift)
  finally show "score_keywords text_lower weights (pre @ keyword # post) score =
          score_keywords text_lower weights (pre @ post) score
          + of_nat (str_count text_lower (lower keyword) * 1 * length keyword)"
    by (simp only: score_keywords_append c_def add.commute)
next
  show "calculate_relevance_score stext kws weights =
          calculate_relevance_score stext kws (weights(keyword \<mapsto> 1))"
    using assms by (simp add: calculate_relevance_score_def score_keywords_explicit_one)
qed

theorem missing_weight_defaults_to_one_witness:
  "[''drug'' \<mapsto> 3::int] ''neural'' = None \<and>
   score_keywords ''neural nets, neural drug'' [''drug'' \<mapsto> 3] ([''drug''] @ ''neural'' # []) 0 =
     score_keywords ''neural nets, neural drug'' [''drug'' \<mapsto> 3] ([''drug''] @ []) 0
     + of_nat (2 * 1 * 6) \<and>
   str_count ''neural nets, neural drug'' (lower ''neural'') = 2"
proof -
  have h: "[''drug'' \<mapsto> 3::int] ''neural'' = None" by simp
  have c: "str_count ''neural nets, neural drug'' (lower ''neural'') = 2" by code_simp
  have l: "length ''neural'' = 6" by simp
  from missing_weight_defaults_to_one [where weights = "[''drug'' \<mapsto> 3]"
      and keyword = "''neural''" and text_lower = "''neural nets, neural drug''"
      and pre = "[''drug'']" and post = "[]" and score = 0, OF h]
  show ?thesis using h c l by simp
qed

section \<open>Properties of the segmenter\<close>

lemma isspace_not_terminator: "isspace c \<Longrightarrow> \<not> is_terminator c"
  by (auto simp: isspace_def is_terminator_def Let_def)

lemma strip_whitespace:
  assumes "\<forall>c\<in>set s. isspace c"
  shows "strip s = []"
proof -
  have h: "dropWhile isspace s = []"
    using assms by (induction s) auto
  show ?thesis by (simp only: strip_def h dropWhile.simps rev.simps)
qed

lemma split_blank_lines_chars:
  "p \<in> set (split_blank_lines cur s) \<Longrightarrow> set p \<subseteq> set cur \<union> set s"
proof (induction cur s rule: split_blank_lines.induct)
  case (1 cur)
  then show ?case by simp
next
  case (2 cur c cs)
  show ?case
  proof (cases "c = CHR 0x0A \<and> CHR 0x0A \<in> set (takeWhile isspace cs)")
    case True
    with "2.prems" have "p = rev cur \<or> p \<in> set (split_blank_lines [] (drop (blank_separator cs) cs))"
      by simp
    then show ?thesis
    proof
      assume "p = rev cur"
      then show ?thesis by auto
    next
      assume "p \<in> set (split_blank_lines [] (drop (blank_separator cs) cs))"
      with "2.IH"(1) True have "set p \<subseteq> set [] \<union> set (drop (blank_separator cs) cs)"
        by blast
      moreover have "set (drop (blank_separator cs) cs) \<subseteq> set cs"
        by (rule set_drop_subset)
      ultimately show ?thesis by auto
    qed
  next
    case False
    with "2.prems" have "p \<in> set (split_blank_lines (c # cur) cs)"
      by auto
    with "2.IH"(2) False have "set p \<subseteq> set (c # cur) \<union> set cs"
      by blast
    then show ?thesis by auto
  qed
qed

lemma paragraph_loop_blank:
  "\<forall>p\<in>set ps. \<forall>c\<in>set p. isspace c \<Longrightarrow> paragraph_loop ps st = st"
  by (induction ps) (auto simp: strip_whitespace split: prod.splits)

lemma split_terminators_none:
  "\<forall>c\<in>set s. \<not> is_terminator c \<Longrightarrow> split_terminators cur s = [rev cur @ s]"
  by (induction s arbitrary: cur) auto

lemma strip_blank_then_dot:
  assumes "\<forall>c\<in>set t. isspace c"
  shows "strip (t @ ''. '') = ''.''"
proof -
  have "dropWhile isspace (t @ ''. '') = dropWhile isspace ''. ''"
    using assms by (simp add: dropWhile_append2)
  moreover have "\<not> isspace CHR ''.''" "isspace CHR '' ''"
    by (simp_all add: isspace_def)
  ultimately show ?thesis
    by (simp add: strip_def)
qed

lemma blank_page_sections:
  assumes ws: "\<forall>c\<in>set page_text. isspace c"
  shows "split_into_sections page_text = (if length page_text > 1000 then [''.''] else [])"
proof (cases "page_text = []")
  case True
  then show ?thesis by (simp add: split_into_sections_def)
next
  case False
  have "\<forall>p\<in>set (split_blank_lines [] page_text). \<forall>c\<in>set p. isspace c"
    using split_blank_lines_chars [of _ "[]" page_text] ws by auto
  then have loop: "paragraph_loop (split_blank_lines [] page_text) ([], []) = ([], [])"
    by (rule paragraph_loop_blank)
  have "split_terminators [] page_text = [page_text]"
    using ws isspace_not_terminator by (simp add: split_terminators_none)
  then have "split_by_length page_text 800 = [''.'']"
    using ws by (simp add: split_by_length_def strip_blank_then_dot)
  with loop False show ?thesis
    by (simp add: split_into_sections_def max_sections_per_page_def)
qed

text \<open>
  C9 as the code has it. A page text that is empty or holds only white space, and has at
  most 1000 characters, is segmented into zero sections; and whatever its length, such a
  page gives no section to the ranking, since nothing the segmenter returns for it reaches
  the minimum section length.
\<close>

theorem blank_page_no_sections:
  assumes "\<forall>c\<in>set page_text. isspace c"
  shows "(length page_text \<le> 1000 \<longrightarrow> split_into_sections page_text = []) \<and>
         page_sections kw filename (page_num, page_text) = []"
proof
  show "length page_text \<le> 1000 \<longrightarrow> split_into_sections page_text = []"
    using blank_page_sections [OF assms] by simp
next
  have "split_into_sections page_text = [] \<or> split_into_sections page_text = [''.'']"
    using blank_page_sections [OF assms] by simp
  then show "page_sections kw filename (page_num, page_text) = []"
    by (auto simp: page_sections_def min_section_length_def)
qed

theorem blank_page_no_sections_witness:
  "list_all isspace blank_page \<and> length blank_page \<le> 1000 \<and>
   split_into_sections blank_page = [] \<and>
   page_sections example_keywords ''a.pdf'' (1, blank_page) = []"
proof -
  have ws: "\<forall>c\<in>set blank_page. isspace c"
    by (simp add: blank_page_def isspace_def)
  have len: "length blank_page \<le> 1000"
    by (simp add: blank_page_def)
  from blank_page_no_sections [OF ws, of example_keywords "''a.pdf''" 1] ws len
  show ?thesis by (simp add: list_all_iff)
qed

text \<open>
  The claim as stated, with white-space-only pages of more than 1000 characters in scope,
  fails on a page of 1001 blanks: no paragraph is found, the page is longer than 1000
  characters, and the split by length appends ". " to the single blank sentence before
  stripping it, so that one section, the text ".", is returned.
\<close>

theorem long_blank_page_counterexample:
  "list_all isspace (replicate 1001 CHR '' '') \<and>
   split_into_sections (replicate 1001 CHR '' '') = [''.''] \<and>
   split_into_sections (replicate 1001 CHR '' '') \<noteq> []"
proof -
  have ws: "\<forall>c\<in>set (replicate 1001 CHR '' ''). isspace c"
    by (simp add: isspace_def)
  from blank_page_sections [OF ws] ws show ?thesis
    by (simp add: list_all_iff)
qed

section \<open>Properties of the ranking\<close>

lemma sort_descending_length: "length (sort_descending f xs) = length xs"
  by (simp add: sort_descending_def)

lemma sort_descending_set: "set (sort_descending f xs) = set xs"
  by (simp add: sort_descending_def)

lemma sort_descending_keys: "sorted_wrt (\<lambda>a b. f b \<le> f a) (sort_descending f xs)"
proof -
  have "sorted (map f (sort_key f (rev xs)))"
    by (rule sorted_sort_key)
  then have "sorted_wrt (\<lambda>a b. f a \<le> f b) (sort_key f (rev xs))"
    by (simp add: sorted_wrt_map)
  then show ?thesis
    by (simp add: sort_descending_def sorted_wrt_rev)
qed

lemma sort_descending_stable:
  "filter (\<lambda>y. f y = k) (sort_descending f xs) = filter (\<lambda>y. f y = k) xs"
proof -
  have "filter (\<lambda>y. f y = k) (rev (sort_key f (rev xs))) =
        rev (filter (\<lambda>y. f y = k) (sort_key f (rev xs)))"
    by (simp add: rev_filter)
  also have "\<dots> = rev (filter (\<lambda>y. f y = k) (rev xs))"
    by (simp only: sort_key_stable)
  also have "\<dots> = filter (\<lambda>y. f y = k) xs"
    by (simp add: rev_filter)
  finally show ?thesis by (simp add: sort_descending_def)
qed

lemma keys_and_ties_ordered:
  fixes f :: "'a \<Rightarrow> 'k::linorder"
  assumes "sorted_wrt (\<lambda>a b. f b \<le> f a) ys"
      and "\<And>k. sorted_wrt D (filter (\<lambda>y. f y = k) ys)"
  shows "sorted_wrt (\<lambda>a b. f b < f a \<or> (f a = f b \<and> D a b)) ys"
  using assms
proof (induction ys)
  case Nil
  then show ?case by simp
next
  case (Cons y ys)
  have tail_keys: "sorted_wrt (\<lambda>a b. f b \<le> f a) ys"
    using Cons.prems(1) by simp
  have tail_ties: "sorted_wrt D (filter (\<lambda>z. f z = k) ys)" for k
    using Cons.prems(2) [of k] by (cases "f y = k") simp_all
  have head: "f b < f y \<or> (f y = f b \<and> D y b)" if "b \<in> set ys" for b
  proof (cases "f b = f y")
    case True
    have "sorted_wrt D (y # filter (\<lambda>z. f z = f y) ys)"
      using Cons.prems(2) [of "f y"] by simp
    with that True show ?thesis by auto
  next
    case False
    moreover have "f b \<le> f y"
      using Cons.prems(1) that by simp
    ultimately show ?thesis by auto
  qed
  from Cons.IH [OF tail_keys tail_ties] head show ?case
    by simp
qed

lemma sort_descending_ordered:
  assumes "sorted_wrt D xs"
  shows "sorted_wrt (\<lambda>a b. f b < f a \<or> (f a = f b \<and> D a b)) (sort_descending f xs)"
proof (rule keys_and_ties_ordered)
  show "sorted_wrt (\<lambda>a b. f b \<le> f a) (sort_descending f xs)"
    by (rule sort_descending_keys)
next
  fix k
  show "sorted_wrt D (filter (\<lambda>y. f y = k) (sort_descending f xs))"
    using assms by (simp add: sort_descending_stable sorted_wrt_filter)
qed

lemma assign_ranks_length: "length (assign_ranks k xs) = length xs"
  by (induction xs arbitrary: k) simp_all

lemma assign_ranks_importance:
  "map importance_rank (assign_ranks k xs) = [k ..< k + length xs]"
  by (induction xs arbitrary: k) (simp_all add: upt_rec)

lemma assign_ranks_text: "map section_text (assign_ranks k xs) = map section_text xs"
  by (induction xs arbitrary: k) simp_all

lemma assign_ranks_erase:
  "map (\<lambda>s. s\<lparr>importance_rank := 0\<rparr>) (assign_ranks k xs) =
     map (\<lambda>s. s\<lparr>importance_rank := 0\<rparr>) xs"
  by (induction xs arbitrary: k) simp_all

lemma enumerate_texts:
  "map snd (filter (\<lambda>(i, t). P t) (enumerate n xs)) = filter P xs"
  by (induction xs arbitrary: n) simp_all

lemma page_sections_text:
  "map section_text (page_sections kw filename (page_num, page_text)) =
     filter (\<lambda>t. min_section_length \<le> length t) (split_into_sections page_text)"
proof -
  have "map section_text (page_sections kw filename (page_num, page_text)) =
        map snd (filter (\<lambda>(i, t). min_section_length \<le> length t)
                        (enumerate 0 (split_into_sections page_text)))"
    by (simp add: page_sections_def comp_def case_prod_unfold not_less)
  then show ?thesis by (simp only: enumerate_texts)
qed

lemma doc_sections_text:
  "map section_text (concat (map (page_sections kw filename) (enumerate n pages))) =
     filter (\<lambda>t. min_section_length \<le> length t) (concat (map split_into_sections pages))"
  by (induction pages arbitrary: n) (simp_all add: page_sections_text)

lemma collect_sections_text:
  "map section_text (collect_sections docs kw) =
     filter (\<lambda>t. min_section_length \<le> length t)
       (concat (map split_into_sections (concat (map snd docs))))"
  by (induction docs) (auto simp: collect_sections_def doc_sections_text)

text \<open>
  C1. The ranks of the list returned by rank_sections are 1, 2, ..., N in this order,
  where N is the length of the list; N is the number of segments of at least 100
  characters over all pages of all documents, and every returned section has at least 100
  characters.
\<close>

theorem ranks_are_one_to_n:
  "map importance_rank (rank_sections docs kw) = [1 ..< Suc (length (rank_sections docs kw))]
   \<and> length (rank_sections docs kw) =
       length (filter (\<lambda>t. 100 \<le> length t)
                 (concat (map split_into_sections (concat (map snd docs)))))
   \<and> list_all (\<lambda>s. 100 \<le> length (section_text s)) (rank_sections docs kw)"
proof (intro conjI)
  show "map importance_rank (rank_sections docs kw) =
          [1 ..< Suc (length (rank_sections docs kw))]"
    by (simp add: rank_sections_def assign_ranks_importance assign_ranks_length)
  have len: "length (rank_sections docs kw) = length (map section_text (collect_sections docs kw))"
    by (simp add: rank_sections_def assign_ranks_length sort_descending_length)
  then show "length (rank_sections docs kw) =
       length (filter (\<lambda>t. 100 \<le> length t)
                 (concat (map split_into_sections (concat (map snd docs)))))"
    by (simp only: collect_sections_text min_section_length_def)
  have "set (map section_text (rank_sections docs kw)) =
        set (map section_text (collect_sections docs kw))"
    by (simp add: rank_sections_def assign_ranks_text sort_descending_set del: set_map)
      (simp add: sort_descending_set)
  then have "set (map section_text (rank_sections docs kw)) \<subseteq> {t. 100 \<le> length t}"
    by (simp only: collect_sections_text min_section_length_def) auto
  then show "list_all (\<lambda>s. 100 \<le> length (section_text s)) (rank_sections docs kw)"
    by (auto simp: list_all_iff)
qed

lemma sorted_wrt_concat:
  "sorted_wrt R (concat xss) \<longleftrightarrow>
     (\<forall>xs\<in>set xss. sorted_wrt R xs) \<and>
     sorted_wrt (\<lambda>xs ys. \<forall>x\<in>set xs. \<forall>y\<in>set ys. R x y) xss"
  by (induction xss) (auto simp: sorted_wrt_append)

lemma enumerate_increasing: "sorted_wrt (\<lambda>a b. fst a < fst b) (enumerate n xs)"
proof -
  have "sorted_wrt (<) (map fst (enumerate n xs))" by simp
  then show ?thesis by (simp only: sorted_wrt_map)
qed

lemma page_sections_origin:
  "s \<in> set (page_sections kw filename p) \<Longrightarrow> document s = filename \<and> page_number s = fst p"
  by (cases p) (auto simp: page_sections_def)

lemma page_sections_increasing:
  "sorted_wrt (\<lambda>a b. section_index a < section_index b) (page_sections kw filename p)"
proof (cases p)
  case (Pair page_num page_text)
  have "sorted_wrt (\<lambda>a b. fst a < fst b)
          (filter (\<lambda>(section_idx, text). \<not> length text < min_section_length)
                  (enumerate 0 (split_into_sections page_text)))"
    by (rule sorted_wrt_filter) (rule enumerate_increasing)
  then show ?thesis
    by (simp add: Pair page_sections_def sorted_wrt_map case_prod_unfold)
qed

lemma doc_sections_origin:
  assumes "s \<in> set (concat (map (page_sections kw filename) ps))"
  shows "document s = filename"
proof -
  from assms obtain p where "s \<in> set (page_sections kw filename p)"
    by auto
  then show ?thesis by (simp add: page_sections_origin)
qed

lemma page_sections_page_order:
  "sorted_wrt page_order (page_sections kw filename p)"
proof (rule sorted_wrt_mono_rel)
  show "sorted_wrt (\<lambda>a b. section_index a < section_index b) (page_sections kw filename p)"
    by (rule page_sections_increasing)
next
  fix a b
  assume "a \<in> set (page_sections kw filename p)" "b \<in> set (page_sections kw filename p)"
    and "section_index a < section_index b"
  moreover from this have "page_number a = fst p" "page_number b = fst p"
    by (simp_all add: page_sections_origin)
  ultimately show "page_order a b"
    by (simp add: page_order_def)
qed

lemma pages_page_order:
  assumes "fst p < fst q"
      and "x \<in> set (page_sections kw filename p)"
      and "y \<in> set (page_sections kw filename q)"
  shows "page_order x y"
proof -
  have "page_number x = fst p" "page_number y = fst q"
    using assms(2,3) by (simp_all add: page_sections_origin)
  with assms(1) show ?thesis by (simp add: page_order_def)
qed

lemma doc_sections_increasing:
  "sorted_wrt page_order (concat (map (page_sections kw filename) (enumerate n pages)))"
proof -
  have "sorted_wrt (\<lambda>p q. fst p < fst q) (enumerate n pages)"
    by (rule enumerate_increasing)
  then have outer: "sorted_wrt (\<lambda>p q. \<forall>x\<in>set (page_sections kw filename p).
                       \<forall>y\<in>set (page_sections kw filename q). page_order x y)
                     (enumerate n pages)"
    by (rule sorted_wrt_mono_rel [rotated]) (blast intro: pages_page_order)
  have "sorted_wrt (\<lambda>xs ys. \<forall>x\<in>set xs. \<forall>y\<in>set ys. page_order x y)
          (map (page_sections kw filename) (enumerate n pages))"
    using outer by (simp only: sorted_wrt_map)
  moreover have "\<forall>xs\<in>set (map (page_sections kw filename) (enumerate n pages)).
                   sorted_wrt page_order xs"
    by (auto simp: page_sections_page_order)
  ultimately show ?thesis
    by (simp only: sorted_wrt_concat simp_thms)
qed

lemma doc_position_nth:
  "distinct (map fst docs) \<Longrightarrow> i < length docs \<Longrightarrow> doc_position docs (fst (docs ! i)) = i"
proof (induction docs arbitrary: i)
  case Nil
  then show ?case by simp
next
  case (Cons d docs)
  show ?case
  proof (cases i)
    case 0
    then show ?thesis by (simp add: doc_position_def)
  next
    case (Suc j)
    with Cons.prems have j: "j < length docs" and "fst (docs ! j) \<in> fst ` set docs"
      by auto
    with Cons.prems have "fst d \<noteq> fst (docs ! j)" by auto
    moreover have "doc_position docs (fst (docs ! j)) = j"
      using Cons.IH Cons.prems j by simp
    ultimately show ?thesis
      using Suc by (simp add: doc_position_def)
  qed
qed

lemma docs_in_position_order:
  assumes "distinct (map fst docs)"
  shows "sorted_wrt (\<lambda>d e. doc_position docs (fst d) < doc_position docs (fst e)) docs"
  using assms by (simp add: sorted_wrt_iff_nth_less doc_position_nth)

lemma collect_sections_in_discovery_order:
  assumes "distinct (map fst docs)"
  shows "sorted_wrt (discovered_before docs) (collect_sections docs kw)"
proof -
  define doc where
    "doc = (\<lambda>d :: string \<times> string list.
              concat (map (page_sections kw (fst d)) (enumerate 1 (snd d))))"
  have eq: "collect_sections docs kw = concat (map doc docs)"
    by (simp add: collect_sections_def doc_def case_prod_unfold)
  have origin: "document x = fst d" if "x \<in> set (doc d)" for x d
    using that unfolding doc_def by (rule doc_sections_origin)
  have inner: "sorted_wrt (discovered_before docs) (doc d)" for d
  proof (rule sorted_wrt_mono_rel)
    show "sorted_wrt page_order (doc d)"
      unfolding doc_def by (rule doc_sections_increasing)
  next
    fix a b
    assume "a \<in> set (doc d)" "b \<in> set (doc d)" "page_order a b"
    moreover from this have "document a = fst d" "document b = fst d"
      by (simp_all add: origin)
    ultimately show "discovered_before docs a b"
      by (simp add: discovered_before_def page_order_def)
  qed
  have across: "discovered_before docs x y"
    if "doc_position docs (fst d) < doc_position docs (fst e)"
       "x \<in> set (doc d)" "y \<in> set (doc e)" for d e x y
  proof -
    have "document x = fst d" "document y = fst e"
      using that(2,3) by (simp_all add: origin)
    with that(1) show ?thesis by (simp add: discovered_before_def)
  qed
  have "sorted_wrt (\<lambda>d e. doc_position docs (fst d) < doc_position docs (fst e)) docs"
    using assms by (rule docs_in_position_order)
  then have "sorted_wrt (\<lambda>d e. \<forall>x\<in>set (doc d). \<forall>y\<in>set (doc e). discovered_before docs x y) docs"
    by (rule sorted_wrt_mono_rel [rotated]) (blast intro: across)
  then have "sorted_wrt (\<lambda>xs ys. \<forall>x\<in>set xs. \<forall>y\<in>set ys. discovered_before docs x y)
               (map doc docs)"
    by (simp only: sorted_wrt_map)
  moreover have "\<forall>xs\<in>set (map doc docs). sorted_wrt (discovered_before docs) xs"
    using inner by auto
  ultimately show ?thesis
    unfolding eq by (simp only: sorted_wrt_concat simp_thms)
qed

text \<open>
  C2. In the list returned by rank_sections the relevance scores never increase, and two
  sections with the same score stand in discovery order: the earlier document of the
  input mapping first, within a document the lower page number, within a page the lower
  section index. The keys of the mapping are distinct, as those of a dictionary are.
\<close>

theorem ranked_by_score_then_discovery:
  assumes "distinct (map fst docs)"
  shows "sorted_wrt (\<lambda>a b. relevance_score b < relevance_score a \<or>
                        (relevance_score a = relevance_score b \<and> discovered_before docs a b))
           (rank_sections docs kw)"
proof -
  let ?R = "\<lambda>a b. relevance_score b < relevance_score a \<or>
                  (relevance_score a = relevance_score b \<and> discovered_before docs a b)"
  let ?g = "\<lambda>s::section_data. s\<lparr>importance_rank := 0\<rparr>"
  have erase: "?R a b = ?R (?g a) (?g b)" for a b
    by (simp add: discovered_before_def)
  have "sorted_wrt ?R (sort_descending relevance_score (collect_sections docs kw))"
    using assms by (intro sort_descending_ordered collect_sections_in_discovery_order)
  then have "sorted_wrt ?R (map ?g (sort_descending relevance_score (collect_sections docs kw)))"
    unfolding sorted_wrt_map using erase by simp
  then have "sorted_wrt ?R (map ?g (rank_sections docs kw))"
    by (simp only: rank_sections_def assign_ranks_erase)
  then show ?thesis
    unfolding sorted_wrt_map using erase by simp
qed

theorem ranked_by_score_then_discovery_witness:
  "distinct (map fst example_docs) \<and>
   sorted_wrt (\<lambda>a b. relevance_score b < relevance_score a \<or>
                 (relevance_score a = relevance_score b \<and> discovered_before example_docs a b))
     (rank_sections example_docs example_keywords) \<and>
   map (\<lambda>s. (document s, page_number s, section_index s, importance_rank s))
     (rank_sections example_docs example_keywords) =
     [(''b.pdf'', 2, 0, 1), (''a.pdf'', 1, 0, 2), (''b.pdf'', 1, 0, 3)]"
proof -
  have d: "distinct (map fst example_docs)"
    by (simp add: example_docs_def)
  have r: "map (\<lambda>s. (document s, page_number s, section_index s, importance_rank s))
     (rank_sections example_docs example_keywords) =
     [(''b.pdf'', 2, 0, 1), (''a.pdf'', 1, 0, 2), (''b.pdf'', 1, 0, 3)]"
    by code_simp
  from ranked_by_score_then_discovery [OF d, of example_keywords] d r show ?thesis
    by blast
qed

section \<open>Properties of keyword extraction\<close>

text \<open>
  C8. With an empty persona and an empty task, keyword extraction returns empty keyword
  lists and an empty weights mapping, whatever the tokenizer, tagger, stop words and set
  order are; scored against that result, every section text has relevance 0.
\<close>

theorem empty_persona_and_task:
  "extract_keywords env [] [] =
     \<lparr> persona_keywords = [], job_keywords = [], combined_keywords = [],
       keyword_weights = Map.empty \<rparr>
   \<and> calculate_relevance_score stext
       (combined_keywords (extract_keywords env [] []))
       (keyword_weights (extract_keywords env [] [])) = 0"
  by (simp add: extract_keywords_def extract_from_text_def Counter_def most_common_def
      sort_descending_def calculate_relevance_score_def)

lemma counter_add_keys:
  "map fst (counter_add k items) =
     (if k \<in> set (map fst items) then map fst items else map fst items @ [k])"
proof (induction items)
  case Nil
  then show ?case by simp
next
  case (Cons p items)
  obtain k' n where p: "p = (k', n)" by (cases p)
  show ?case
  proof (cases "k = k'")
    case True
    then show ?thesis by (simp add: p)
  next
    case False
    with Cons show ?thesis by (simp add: p)
  qed
qed

lemma counter_add_map_of:
  "map_of (counter_add k items) =
     (map_of items)(k \<mapsto> (case map_of items k of None \<Rightarrow> 1 | Some n \<Rightarrow> n + 1))"
  by (induction items) (auto simp: fun_upd_twist)

lemma Counter_snoc: "Counter (xs @ [x]) = counter_add x (Counter xs)"
  by (simp add: Counter_def)

lemma Counter_keys: "distinct (map fst (Counter xs)) \<and> set (map fst (Counter xs)) = set xs"
proof (induction xs rule: rev_induct)
  case Nil
  then show ?case by (simp add: Counter_def)
next
  case (snoc x xs)
  then show ?case
    by (auto simp: Counter_snoc counter_add_keys)
qed

lemma Counter_map_of:
  "map_of (Counter xs) k = (if k \<in> set xs then Some (int (count_list xs k)) else None)"
proof (induction xs arbitrary: k rule: rev_induct)
  case Nil
  then show ?case by (simp add: Counter_def)
next
  case (snoc x xs)
  have "map_of (Counter xs) x = (if x \<in> set xs then Some (int (count_list xs x)) else None)"
    by (rule snoc.IH)
  moreover have "x \<notin> set xs \<Longrightarrow> count_list xs x = 0"
    by (simp add: count_list_0_iff)
  ultimately show ?case
    using snoc.IH [of k] by (auto simp: Counter_snoc counter_add_map_of)
qed

lemma first_index_old: "k \<in> set xs \<Longrightarrow> first_index (xs @ [x]) k = first_index xs k"
  by (simp add: first_index_def)

lemma first_index_new: "x \<notin> set xs \<Longrightarrow> first_index (xs @ [x]) x = length xs"
  unfolding first_index_def by (induction xs) auto

lemma first_index_less: "k \<in> set xs \<Longrightarrow> first_index xs k < length xs"
  unfolding first_index_def by (induction xs) auto

lemma Counter_keys_ordered:
  "sorted_wrt (\<lambda>a b. first_index xs a < first_index xs b) (map fst (Counter xs))"
proof (induction xs rule: rev_induct)
  case Nil
  then show ?case by (simp add: Counter_def)
next
  case (snoc x xs)
  have keys: "set (map fst (Counter xs)) = set xs"
    using Counter_keys by blast
  have old: "sorted_wrt (\<lambda>a b. first_index (xs @ [x]) a < first_index (xs @ [x]) b)
               (map fst (Counter xs))"
  proof (rule sorted_wrt_mono_rel)
    show "sorted_wrt (\<lambda>a b. first_index xs a < first_index xs b) (map fst (Counter xs))"
      by (rule snoc.IH)
  next
    fix a b
    assume "a \<in> set (map fst (Counter xs))" "b \<in> set (map fst (Counter xs))"
      and "first_index xs a < first_index xs b"
    then show "first_index (xs @ [x]) a < first_index (xs @ [x]) b"
      unfolding keys by (simp add: first_index_old)
  qed
  show ?case
  proof (cases "x \<in> set xs")
    case True
    with old keys show ?thesis
      by (simp only: Counter_snoc counter_add_keys if_True)
  next
    case False
    have "first_index (xs @ [x]) a < first_index (xs @ [x]) x" if "a \<in> set xs" for a
      using that False by (simp add: first_index_old first_index_new first_index_less)
    with old keys False show ?thesis
      by (simp add: Counter_snoc counter_add_keys sorted_wrt_append)
  qed
qed

lemma Counter_entry:
  assumes "p \<in> set (Counter xs)"
  shows "snd p = int (count_list xs (fst p))"
proof -
  have "distinct (map fst (Counter xs))" "fst p \<in> set xs"
    using Counter_keys [of xs] assms by force+
  moreover from assms have "(fst p, snd p) \<in> set (Counter xs)" by simp
  ultimately have "map_of (Counter xs) (fst p) = Some (snd p)"
    by (simp only: map_of_is_SomeI)
  then show ?thesis
    using \<open>fst p \<in> set xs\<close> by (simp add: Counter_map_of)
qed

lemma Counter_ranking:
  fixes xs :: "string list"
  defines "items \<equiv> sort_descending snd (Counter xs)"
  shows "distinct (map fst items)"
    and "set (map fst items) = set xs"
    and "sorted_wrt (\<lambda>a b. count_list xs b < count_list xs a \<or>
                       (count_list xs a = count_list xs b \<and> first_index xs a < first_index xs b))
           (map fst items)"
proof -
  have set_items: "set items = set (Counter xs)"
    by (simp add: items_def sort_descending_set)
  have "distinct (Counter xs)" "inj_on fst (set (Counter xs))"
    using Counter_keys [of xs] by (simp_all add: distinct_map)
  moreover have "distinct items = distinct (Counter xs)"
    by (simp add: items_def sort_descending_def)
  ultimately show "distinct (map fst items)"
    by (simp add: distinct_map set_items)
  show "set (map fst items) = set xs"
    using Counter_keys [of xs] by (simp add: set_items)
  have "sorted_wrt (\<lambda>a b. first_index xs (fst a) < first_index xs (fst b)) (Counter xs)"
    using Counter_keys_ordered [of xs] by (simp only: sorted_wrt_map)
  then have "sorted_wrt (\<lambda>a b. snd b < snd a \<or>
                 (snd a = snd b \<and> first_index xs (fst a) < first_index xs (fst b))) items"
    unfolding items_def by (rule sort_descending_ordered)
  then have "sorted_wrt (\<lambda>a b. count_list xs (fst b) < count_list xs (fst a) \<or>
                 (count_list xs (fst a) = count_list xs (fst b) \<and>
                  first_index xs (fst a) < first_index xs (fst b))) items"
  proof (rule sorted_wrt_mono_rel [rotated])
    fix a b :: "string \<times> int"
    assume "a \<in> set items" "b \<in> set items"
    then have "snd a = int (count_list xs (fst a))" "snd b = int (count_list xs (fst b))"
      unfolding set_items by (simp_all add: Counter_entry)
    moreover assume "snd b < snd a \<or>
                 (snd a = snd b \<and> first_index xs (fst a) < first_index xs (fst b))"
    ultimately show "count_list xs (fst b) < count_list xs (fst a) \<or>
                 (count_list xs (fst a) = count_list xs (fst b) \<and>
                  first_index xs (fst a) < first_index xs (fst b))"
      by simp
  qed
  then show "sorted_wrt (\<lambda>a b. count_list xs b < count_list xs a \<or>
                       (count_list xs a = count_list xs b \<and> first_index xs a < first_index xs b))
           (map fst items)"
    by (simp only: sorted_wrt_map)
qed

text \<open>
  C7 as the code has it. The combined keywords are the first 20 of the ranking of all
  distinct keywords by weight (the number of occurrences in the persona keywords followed
  by the task keywords), higher weight first and equal weights in the order of first
  position in that concatenated sequence; the weights mapping holds these counts. The
  order inside each source is the order of the list that extraction returned for it.
\<close>

theorem combined_keywords_ranking:
  "let kd = extract_keywords env persona job;
       all_keywords = persona_keywords kd @ job_keywords kd
   in persona_keywords kd = extract_from_text env persona \<and>
      job_keywords kd = extract_from_text env job \<and>
      (\<exists>ranking. distinct ranking \<and> set ranking = set all_keywords \<and>
         sorted_wrt (\<lambda>a b. count_list all_keywords b < count_list all_keywords a \<or>
                       (count_list all_keywords a = count_list all_keywords b \<and>
                        first_index all_keywords a < first_index all_keywords b)) ranking \<and>
         combined_keywords kd = take 20 ranking) \<and>
      keyword_weights kd =
        (\<lambda>k. if k \<in> set all_keywords then Some (int (count_list all_keywords k)) else None)"
proof -
  define xs where "xs = extract_from_text env persona @ extract_from_text env job"
  define ranking where "ranking = map fst (sort_descending snd (Counter xs))"
  have top: "combined_keywords (extract_keywords env persona job) = take 20 ranking"
    by (simp add: extract_keywords_def Let_def most_common_def ranking_def xs_def take_map)
  have weights: "keyword_weights (extract_keywords env persona job) =
      (\<lambda>k. if k \<in> set xs then Some (int (count_list xs k)) else None)"
    by (rule ext) (simp add: extract_keywords_def Let_def xs_def Counter_map_of)
  have sources: "persona_keywords (extract_keywords env persona job) = extract_from_text env persona"
    "job_keywords (extract_keywords env persona job) = extract_from_text env job"
    by (simp_all add: extract_keywords_def Let_def)
  have "distinct ranking \<and> set ranking = set xs \<and>
        sorted_wrt (\<lambda>a b. count_list xs b < count_list xs a \<or>
                       (count_list xs a = count_list xs b \<and> first_index xs a < first_index xs b))
          ranking \<and>
        combined_keywords (extract_keywords env persona job) = take 20 ranking"
    unfolding ranking_def [symmetric] using Counter_ranking [of xs] top
    by (simp only: ranking_def simp_thms)
  then have "\<exists>ranking. distinct ranking \<and> set ranking = set xs \<and>
        sorted_wrt (\<lambda>a b. count_list xs b < count_list xs a \<or>
                       (count_list xs a = count_list xs b \<and> first_index xs a < first_index xs b))
          ranking \<and>
        combined_keywords (extract_keywords env persona job) = take 20 ranking"
    by (rule exI)
  with weights sources show ?thesis
    unfolding Let_def sources xs_def [symmetric] by simp
qed

theorem set_order_breaks_text_order:
  "set_order_ok (set_order reversing_env) \<and>
   persona_keywords (extract_keywords reversing_env ''data, science'' '''') =
     [''science'', ''data''] \<and>
   combined_keywords (extract_keywords reversing_env ''data, science'' '''') =
     [''science'', ''data''] \<and>
   str_find ''data, science'' ''data'' = Some 0 \<and>
   str_find ''data, science'' ''science'' = Some 6"
proof -
  have "set_order_ok (set_order reversing_env)"
    by (simp add: set_order_ok_def reversing_env_def)
  moreover have "persona_keywords (extract_keywords reversing_env ''data, science'' '''') =
     [''science'', ''data'']"
    by code_simp
  moreover have "combined_keywords (extract_keywords reversing_env ''data, science'' '''') =
     [''science'', ''data'']"
    by code_simp
  moreover have "str_find ''data, science'' ''data'' = Some 0"
    "str_find ''data, science'' ''science'' = Some 6"
    by code_simp+
  ultimately show ?thesis by blast
qed

section \<open>Properties of the summarizer\<close>

text \<open>
  C5. A text with at most three sentences (pieces between sentence terminators followed
  by white space, stripped, longer than 20 characters) is its own summary, character for
  character.
\<close>

theorem short_text_unchanged:
  "length (split_sentences text) \<le> 3 \<Longrightarrow> generate_extractive_summary text kws = text"
  by (simp add: generate_extractive_summary_def summary_sentences_def)

theorem short_text_unchanged_witness:
  "length (split_sentences ''Short text. Only two sentences here, really.'') \<le> 3 \<and>
   generate_extractive_summary ''Short text. Only two sentences here, really.'' [''two'']
     = ''Short text. Only two sentences here, really.''"
proof -
  have h: "length (split_sentences ''Short text. Only two sentences here, really.'') \<le> 3"
    by code_simp
  from short_text_unchanged [OF h] h show ?thesis by blast
qed

lemma presence_loop_sum:
  "presence_loop sl kws score =
     score + of_nat (sum_list (map length (filter (\<lambda>keyword. contains sl (lower keyword)) kws)))"
  by (induction kws arbitrary: score) simp_all

text \<open>
  C6 as the code has it. The sentence score is the sum of the lengths of the keywords
  present (times 1 + 0.2 * count when more than one entry of the keyword list is
  present), divided by the sentence length over 100; it is 0 for an empty sentence or an
  empty keyword list.
\<close>

theorem sentence_score_normalized:
  "score_sentence sentence kws =
     (if sentence = [] \<or> kws = [] then 0
      else spec_sentence_score sentence kws / (of_nat (length sentence) / 100))"
  by (simp add: score_sentence_def spec_sentence_score_def presence_loop_sum Let_def
      mult.commute)

theorem sentence_score_counterexample:
  "score_sentence ''The cat sat on a warm mat'' [''cat''] = 12 \<and>
   spec_sentence_score ''The cat sat on a warm mat'' [''cat''] = 3 \<and>
   score_sentence ''The cat sat on a warm mat'' [''cat'']
     \<noteq> spec_sentence_score ''The cat sat on a warm mat'' [''cat'']"
proof -
  have a: "score_sentence ''The cat sat on a warm mat'' [''cat''] = 12"
    by code_simp
  have b: "spec_sentence_score ''The cat sat on a warm mat'' [''cat''] = 3"
    by code_simp
  from a b show ?thesis by simp
qed

text \<open>
  C4. The text has five sentences, the first and the fourth the same; with the keyword
  "cat" the three best are the second, the first and the third, and the summary holds
  four sentences, the repeated one twice.
\<close>

theorem summary_repeats_sentence:
  "split_sentences repeated_sentence_text =
     [''Dogs bark loudly at night'', ''The cat sat on a warm mat'',
      ''Birds sing in the tall trees'', ''Dogs bark loudly at night'',
      ''Fish swim in the cold pond.''] \<and>
   generate_extractive_summary repeated_sentence_text [''cat''] =
     join '' '' [''Dogs bark loudly at night'', ''The cat sat on a warm mat'',
                ''Birds sing in the tall trees'', ''Dogs bark loudly at night'']"
  by code_simp

end
